theory Spec2Isabelle
  imports Complex_Main "HOL-Library.Multiset"
begin

section \<open>ForecastForge front end: submission form, status poller, leaderboard\<close>

text \<open>
  The development embeds the two React components of the front end:
  \<^item> \<open>HomePage\<close> with its \<open>handleFileChange\<close> and \<open>handleSubmit\<close> handlers;
  \<^item> \<open>ResultsPage\<close> with the effect that polls \<open>/api/results/{taskId}\<close> every
    3000 ms, and its render function (progress bar or leaderboard).

  JavaScript numbers are IEEE 754 doubles. A finite double is held as the real it
  denotes, and every division and multiplication rounds its exact result to the nearest
  double, ties to even, overflowing to an infinity. The sign of zero is not modelled. A
  field that may be \<open>undefined\<close> is an \<open>option\<close>.
\<close>

subsection \<open>JavaScript numbers\<close>

datatype jsnum = Num real | PosInf | NegInf | NaN

text \<open>Rounding a real to the nearest integer, a tie going to the even neighbour.\<close>

definition round_half_even :: "real \<Rightarrow> int" where
  "round_half_even q =
     (let f = \<lfloor>q\<rfloor>; d = q - of_int f
      in if d < 1 / 2 then f else if 1 / 2 < d then f + 1 else if even f then f else f + 1)"

text \<open>
  The binade of a real \<open>r \<ge> 0\<close>: the greatest \<open>e\<close> from -1021 to 1023 with
  \<open>2 powi e \<le> r\<close>, found by scanning downwards from 1023, and -1022 when there is
  none (the least normal binade, which also holds the subnormal numbers and zero).
\<close>

primrec scan :: "nat \<Rightarrow> real \<Rightarrow> int" where
  "scan 0 r = - 1022"
| "scan (Suc k) r = (if 2 powi (int k - 1021) \<le> r then int k - 1021 else scan k r)"

definition binade :: "real \<Rightarrow> int" where
  "binade r = scan 2045 r"

text \<open>
  The double nearest to a real \<open>r \<ge> 0\<close>. The doubles of binade \<open>e\<close> are the multiples
  of \<open>2 powi (e - 52)\<close>, so \<open>r\<close> is rounded to a multiple of that spacing; a result that
  reaches \<open>2 powi 1024\<close> is beyond the largest double and becomes \<open>Infinity\<close>.
\<close>

definition round_pos :: "real \<Rightarrow> jsnum" where
  "round_pos r =
     (let E = binade r - 52; v = of_int (round_half_even (r / 2 powi E)) * 2 powi E
      in if 2 powi 1024 \<le> v then PosInf else Num v)"

fun js_neg :: "jsnum \<Rightarrow> jsnum" where
  "js_neg (Num x) = Num (- x)"
| "js_neg PosInf = NegInf"
| "js_neg NegInf = PosInf"
| "js_neg NaN = NaN"

text \<open>The Number value of a real: rounding is symmetric about zero.\<close>

definition to_double :: "real \<Rightarrow> jsnum" where
  "to_double r = (if 0 \<le> r then round_pos r else js_neg (round_pos (- r)))"

text \<open>\<open>ToNumber\<close> of a numeric field read from a JSON object: a missing field reads as
  \<open>undefined\<close>, which converts to \<open>NaN\<close>; a field that is there holds the double that
  was parsed.\<close>

fun to_number :: "real option \<Rightarrow> jsnum" where
  "to_number None = NaN"
| "to_number (Some x) = Num x"

text \<open>The operators \<open>/\<close> and \<open>*\<close>: on two finite numbers, the exact quotient or product
  rounded to a double; otherwise the special cases of IEEE arithmetic.\<close>

fun js_div :: "jsnum \<Rightarrow> jsnum \<Rightarrow> jsnum" where
  "js_div NaN _ = NaN"
| "js_div _ NaN = NaN"
| "js_div (Num a) (Num b) =
     (if b = 0 then (if a = 0 then NaN else if 0 < a then PosInf else NegInf)
      else to_double (a / b))"
| "js_div (Num a) PosInf = Num 0"
| "js_div (Num a) NegInf = Num 0"
| "js_div PosInf (Num b) = (if b < 0 then NegInf else PosInf)"
| "js_div NegInf (Num b) = (if b < 0 then PosInf else NegInf)"
| "js_div PosInf PosInf = NaN"
| "js_div PosInf NegInf = NaN"
| "js_div NegInf PosInf = NaN"
| "js_div NegInf NegInf = NaN"

fun js_mul :: "jsnum \<Rightarrow> jsnum \<Rightarrow> jsnum" where
  "js_mul NaN _ = NaN"
| "js_mul _ NaN = NaN"
| "js_mul (Num a) (Num b) = to_double (a * b)"
| "js_mul (Num a) PosInf = (if a = 0 then NaN else if 0 < a then PosInf else NegInf)"
| "js_mul (Num a) NegInf = (if a = 0 then NaN else if 0 < a then NegInf else PosInf)"
| "js_mul PosInf (Num b) = (if b = 0 then NaN else if 0 < b then PosInf else NegInf)"
| "js_mul NegInf (Num b) = (if b = 0 then NaN else if 0 < b then NegInf else PosInf)"
| "js_mul PosInf PosInf = PosInf"
| "js_mul PosInf NegInf = NegInf"
| "js_mul NegInf PosInf = NegInf"
| "js_mul NegInf NegInf = PosInf"

subsection \<open>The payload of \<open>GET /api/results/{taskId}\<close>\<close>

record metrics_t =
  mape :: real
  mae :: real

record model_result =
  model_name :: string
  metrics :: metrics_t

text \<open>\<open>meta\<close> of a status payload; every field may be absent.\<close>

record meta_t =
  model :: "string option"
  current :: "real option"
  total' :: "real option"

text \<open>\<open>response.data\<close>: the status string, and the optional \<open>meta\<close> and \<open>results\<close>.\<close>

record status_data =
  status :: string
  meta :: "meta_t option"
  data_results :: "model_result list option"

subsection \<open>\<open>ResultsPage\<close>: rendering\<close>

text \<open>
  \<^verbatim>\<open>const progress = meta?.total ? (meta.current / meta.total) * 100 : 0;\<close>

  \<open>meta?.total\<close> is falsy when \<open>meta\<close> or \<open>total\<close> is missing and when \<open>total\<close> is 0.
\<close>

definition progress :: "meta_t option \<Rightarrow> jsnum" where
  "progress m =
     (case m of
        None \<Rightarrow> Num 0
      | Some mt \<Rightarrow>
          (case total' mt of
             None \<Rightarrow> Num 0
           | Some t \<Rightarrow>
               if t = 0 then Num 0
               else js_mul (js_div (to_number (current mt)) (Num t)) (Num 100)))"

text \<open>One row of the leaderboard table: \<open>index + 1\<close>, whether the row carries the
  trophy and the green background (\<open>index === 0\<close>), and the three cells. The two-decimal
  formatting of \<open>toFixed(2)\<close> is presentation and is left out.\<close>

record row =
  rank :: nat
  best :: bool
  row_model :: string
  row_mape :: real
  row_mae :: real

definition render_row :: "nat \<Rightarrow> model_result \<Rightarrow> row" where
  "render_row index res =
     \<lparr>rank = index + 1, best = (index = 0), row_model = model_name res,
      row_mape = mape (metrics res), row_mae = mae (metrics res)\<rparr>"

text \<open>\<open>results.map((res, index) => ...)\<close>: one row per element, in the order of the array.\<close>

definition render_rows :: "model_result list \<Rightarrow> row list" where
  "render_rows rs = map (\<lambda>(index, res). render_row index res) (enumerate 0 rs)"

datatype view =
    ProgressView "(string \<times> real option \<times> real option) option" jsnum
  | LeaderboardView "row list"

text \<open>The line under the heading, shown when \<open>meta?.model\<close> is truthy (present and not
  the empty string): the model's name with \<open>current\<close> and \<open>total\<close>.\<close>

definition calculando :: "meta_t option \<Rightarrow> (string \<times> real option \<times> real option) option" where
  "calculando m =
     (case m of
        None \<Rightarrow> None
      | Some mt \<Rightarrow>
          (case model mt of
             None \<Rightarrow> None
           | Some name \<Rightarrow> if name = [] then None else Some (name, current mt, total' mt)))"

text \<open>The render function of \<open>ResultsPage\<close>, as a function of its two state variables:
  \<open>!results\<close> holds for \<open>null\<close> and \<open>undefined\<close>; an array, also the empty one, is
  truthy.\<close>

definition render :: "status_data \<Rightarrow> model_result list option \<Rightarrow> view" where
  "render taskStatus results =
     (case results of
        None \<Rightarrow> ProgressView (calculando (meta taskStatus)) (progress (meta taskStatus))
      | Some rs \<Rightarrow> LeaderboardView (render_rows rs))"

subsection \<open>\<open>ResultsPage\<close>: the polling effect\<close>

text \<open>
  \<^verbatim>\<open>
  useEffect(() => {
    const poll = setInterval(async () => {
      try {
        const response = await axios.get(`http://localhost:8000/api/results/${taskId}`);
        if (response.data.status === 'SUCCESS') {
          setResults(response.data.results);
          clearInterval(poll);
        } else {
          setTaskStatus(response.data);
        }
      } catch (error) {
        console.error('Error fetching results:', error);
        clearInterval(poll);
      }
    }, 3000);
    return () => clearInterval(poll);
  }, [taskId]);
  \<close>

  The effect runs on one logical thread; what interleaves are the timer's ticks, the
  settlements of the requests in flight and the cleanup. The model is a labelled step
  function over those events for one mount of the page with a fixed \<open>taskId\<close>, with a
  clock in milliseconds. Every call the effect makes on its environment is appended to
  \<open>calls\<close>.
\<close>

datatype call =
    AxiosGet string
  | SetResults "model_result list option"
  | SetTaskStatus status_data
  | ConsoleError
  | ClearInterval

record poller =
  taskId :: string
  now :: nat
  timer :: "nat option"
  inflight :: "nat list"
  issued :: nat
  taskStatus :: status_data
  results :: "model_result list option"
  mounted :: bool
  calls :: "call list"

text \<open>
  \<open>timer\<close> is the interval \<open>poll\<close>: \<open>Some due\<close> while it is active, with the time
  before which its next tick cannot fire, \<open>None\<close> once it is cleared. \<open>inflight\<close> lists
  the requests whose promise is pending, each named by its number in the order of issue;
  \<open>issued\<close> counts the requests made so far. \<open>taskStatus\<close> and \<open>results\<close> are the two
  state variables of the component.
\<close>

definition interval :: nat where
  "interval = 3000"

definition initial_status :: status_data where
  "initial_status =
     \<lparr>status = ''PENDING'', meta = Some \<lparr>model = None, current = None, total' = None\<rparr>,
      data_results = None\<rparr>"

definition results_url :: "string \<Rightarrow> string" where
  "results_url tid = ''http://localhost:8000/api/results/'' @ tid"

text \<open>The first render and the start of the effect at time \<open>t0\<close>: \<open>useState\<close> gives the
  initial state, \<open>setInterval(..., 3000)\<close> arms the timer.\<close>

definition mount :: "string \<Rightarrow> nat \<Rightarrow> poller" where
  "mount tid t0 =
     \<lparr>taskId = tid, now = t0, timer = Some (t0 + interval), inflight = [], issued = 0,
      taskStatus = initial_status, results = None, mounted = True, calls = []\<rparr>"

text \<open>The state setters. React applies an update only to a mounted component; the call
  itself is made, and logged, either way.\<close>

definition setResults :: "model_result list option \<Rightarrow> poller \<Rightarrow> poller" where
  "setResults v s =
     s\<lparr>results := (if mounted s then v else results s), calls := calls s @ [SetResults v]\<rparr>"

definition setTaskStatus :: "status_data \<Rightarrow> poller \<Rightarrow> poller" where
  "setTaskStatus d s =
     s\<lparr>taskStatus := (if mounted s then d else taskStatus s),
       calls := calls s @ [SetTaskStatus d]\<rparr>"

definition clearInterval :: "poller \<Rightarrow> poller" where
  "clearInterval s = s\<lparr>timer := None, calls := calls s @ [ClearInterval]\<rparr>"

definition console_error :: "poller \<Rightarrow> poller" where
  "console_error s = s\<lparr>calls := calls s @ [ConsoleError]\<rparr>"

text \<open>The body of the \<open>try\<close> after the \<open>await\<close>, for a response with body \<open>d\<close>.\<close>

definition on_fulfilled :: "status_data \<Rightarrow> poller \<Rightarrow> poller" where
  "on_fulfilled d s =
     (if status d = ''SUCCESS'' then clearInterval (setResults (data_results d) s)
      else setTaskStatus d s)"

text \<open>The \<open>catch\<close> block.\<close>

definition on_rejected :: "poller \<Rightarrow> poller" where
  "on_rejected s = clearInterval (console_error s)"

datatype event =
    Advance nat
  | Tick
  | Resolve nat status_data
  | Reject nat
  | Cleanup

text \<open>
  \<^item> \<open>Advance d\<close>: \<open>d\<close> milliseconds pass.
  \<^item> \<open>Tick\<close>: the interval fires, possible only while it is active and not before it is
    due; the callback calls \<open>axios.get\<close> and suspends at the \<open>await\<close>; the interval is
    due again one period later.
  \<^item> \<open>Resolve i d\<close>: request \<open>i\<close>, in flight, is answered with a 2xx response whose
    body is the JSON object \<open>d\<close>; its callback resumes in the \<open>try\<close>.
  \<^item> \<open>Reject i\<close>: request \<open>i\<close>, in flight, fails (no response, or a status outside 2xx);
    its callback resumes in the \<open>catch\<close>.
  \<^item> \<open>Cleanup\<close>: the page is unmounted and the function returned by the effect runs.
  An event that cannot happen in a state gives \<open>None\<close>.
\<close>

fun step :: "event \<Rightarrow> poller \<Rightarrow> poller option" where
  "step (Advance d) s = Some (s\<lparr>now := now s + d\<rparr>)"
| "step Tick s =
     (case timer s of
        None \<Rightarrow> None
      | Some due \<Rightarrow>
          if now s < due then None
          else Some (s\<lparr>timer := Some (due + interval),
                       inflight := inflight s @ [issued s],
                       issued := issued s + 1,
                       calls := calls s @ [AxiosGet (results_url (taskId s))]\<rparr>))"
| "step (Resolve i d) s =
     (if i \<in> set (inflight s) then Some (on_fulfilled d (s\<lparr>inflight := remove1 i (inflight s)\<rparr>))
      else None)"
| "step (Reject i) s =
     (if i \<in> set (inflight s) then Some (on_rejected (s\<lparr>inflight := remove1 i (inflight s)\<rparr>))
      else None)"
| "step Cleanup s =
     (if mounted s then Some (clearInterval (s\<lparr>mounted := False\<rparr>)) else None)"

fun run :: "event list \<Rightarrow> poller \<Rightarrow> poller option" where
  "run [] s = Some s"
| "run (e # es) s = (case step e s of None \<Rightarrow> None | Some s' \<Rightarrow> run es s')"

text \<open>What the page shows in a state.\<close>

definition page_view :: "poller \<Rightarrow> view" where
  "page_view s = render (taskStatus s) (results s)"

fun rows_of :: "view \<Rightarrow> row list" where
  "rows_of (LeaderboardView rows) = rows"
| "rows_of (ProgressView _ _) = []"

fun is_resolve :: "event \<Rightarrow> bool" where
  "is_resolve (Resolve _ _) = True"
| "is_resolve _ = False"

fun is_settle :: "event \<Rightarrow> bool" where
  "is_settle (Resolve _ _) = True"
| "is_settle (Reject _) = True"
| "is_settle _ = False"

subsection \<open>\<open>HomePage\<close>: the submission form\<close>

type_synonym File = string

record home_state =
  file' :: "File option"
  error :: string
  loading :: bool

definition home_init :: home_state where
  "home_init = \<lparr>file' = None, error = [], loading = False\<rparr>"

text \<open>\<open>setFile(e.target.files[0]); setError('')\<close>: the first selected file, \<open>undefined\<close>
  when the selection is empty.\<close>

definition handleFileChange :: "File list \<Rightarrow> home_state \<Rightarrow> home_state" where
  "handleFileChange files s =
     s\<lparr>file' := (case files of [] \<Rightarrow> None | f # _ \<Rightarrow> Some f), error := []\<rparr>"

text \<open>The error thrown by \<open>axios.post\<close>: \<open>err.response\<close> is missing when no response was
  received, \<open>data\<close> when the response has no body, \<open>detail\<close> when the body has no such
  field.\<close>

record err_body =
  detail :: "string option"

record err_response =
  data :: "err_body option"

record axios_error =
  response :: "err_response option"

text \<open>The outcome of the \<open>await\<close>: a 2xx response, whose body is taken to be a JSON
  object, with its \<open>data.task_id\<close>, or a throw.\<close>

datatype post_outcome = Fulfilled "string option" | Thrown axios_error

datatype effect = PreventDefault | AxiosPost string File | Navigate string

definition msg_no_file :: string where
  "msg_no_file = ''Por favor, selecciona un archivo CSV.''"

text \<open>The fallback message; the accented letter is written as its two bytes in UTF-8.\<close>

definition msg_upload_failed :: string where
  "msg_upload_failed = ''Ocurri'' @ [CHR 0xC3, CHR 0xB3] @ '' un error al subir el archivo.''"

definition process_url :: string where
  "process_url = ''http://localhost:8000/api/process''"

text \<open>\<open>err.response?.data?.detail\<close>\<close>

definition error_detail :: "axios_error \<Rightarrow> string option" where
  "error_detail err =
     (case response err of
        None \<Rightarrow> None
      | Some r \<Rightarrow> (case data r of None \<Rightarrow> None | Some b \<Rightarrow> detail b))"

text \<open>\<open>a || b\<close> on an optional string: \<open>undefined\<close> and the empty string are falsy.\<close>

definition or_else :: "string option \<Rightarrow> string \<Rightarrow> string" where
  "or_else a b = (case a of None \<Rightarrow> b | Some x \<Rightarrow> if x = [] then b else x)"

text \<open>A value in a template literal: \<open>undefined\<close> prints as its name.\<close>

definition template :: "string option \<Rightarrow> string" where
  "template v = (case v of None \<Rightarrow> ''undefined'' | Some x \<Rightarrow> x)"

text \<open>
  \<open>handleSubmit\<close>, run to completion: the state it leaves and the effects it has, in
  order. \<open>out\<close> is what the \<open>await\<close> of \<open>axios.post\<close> would give; it is consulted only
  on the path that makes the request.
\<close>

definition handleSubmit :: "post_outcome \<Rightarrow> home_state \<Rightarrow> home_state \<times> effect list" where
  "handleSubmit out s =
     (case file' s of
        None \<Rightarrow> (s\<lparr>error := msg_no_file\<rparr>, [PreventDefault])
      | Some f \<Rightarrow>
          (let s1 = s\<lparr>loading := True, error := []\<rparr> in
           case out of
             Fulfilled task_id \<Rightarrow>
               (s1\<lparr>loading := False\<rparr>,
                [PreventDefault, AxiosPost process_url f,
                 Navigate (''/results/'' @ template task_id)])
           | Thrown err \<Rightarrow>
               (s1\<lparr>error := or_else (error_detail err) msg_upload_failed, loading := False\<rparr>,
                [PreventDefault, AxiosPost process_url f])))"

text \<open>\<open>{error && <p>{error}</p>}\<close>: the message under the form, shown when \<open>error\<close> is
  not empty.\<close>

definition error_shown :: "home_state \<Rightarrow> string option" where
  "error_shown s = (if error s = [] then None else Some (error s))"

fun is_post :: "effect \<Rightarrow> bool" where
  "is_post (AxiosPost _ _) = True"
| "is_post _ = False"

subsection \<open>Notions used in the statements\<close>



text \<open>The result a leaderboard row displays.\<close>

definition row_entry :: "row \<Rightarrow> model_result" where
  "row_entry r = \<lparr>model_name = row_model r, metrics = \<lparr>mape = row_mape r, mae = row_mae r\<rparr>\<rparr>"

fun is_get :: "call \<Rightarrow> bool" where
  "is_get (AxiosGet _) = True"
| "is_get _ = False"

text \<open>The invariant of the poller started at \<open>t0\<close>: no more requests are in flight than
  were issued, the \<open>k\<close>-th request was issued no earlier than \<open>k\<close> periods after the
  start, and an active interval is next due one period after the last tick's due time.\<close>

definition poll_inv :: "nat \<Rightarrow> poller \<Rightarrow> bool" where
  "poll_inv t0 s \<longleftrightarrow>
     length (inflight s) \<le> issued s \<and> t0 + issued s * interval \<le> now s \<and>
     (\<forall>due. timer s = Some due \<longrightarrow> due = t0 + (issued s + 1) * interval)"

section \<open>Properties\<close>

lemmas poll_defs = mount_def interval_def on_fulfilled_def on_rejected_def setResults_def
  setTaskStatus_def clearInterval_def console_error_def results_url_def initial_status_def

lemmas view_defs = page_view_def render_def progress_def calculando_def render_rows_def
  render_row_def

subsection \<open>Facts about rounding\<close>

lemma round_half_even_le: "q \<le> of_int K \<Longrightarrow> round_half_even q \<le> K"
proof -
  assume le: "q \<le> of_int K"
  show ?thesis
  proof (cases "q = of_int K")
    case True
    then show ?thesis by (simp add: round_half_even_def)
  next
    case False
    with le have "q < of_int K" by simp
    then have "\<lfloor>q\<rfloor> < K" by (simp add: floor_less_iff)
    then show ?thesis by (simp add: round_half_even_def Let_def)
  qed
qed

lemma round_half_even_ge: "of_int K \<le> q \<Longrightarrow> K \<le> round_half_even q"
proof -
  assume "of_int K \<le> q"
  then have "K \<le> \<lfloor>q\<rfloor>" by (simp add: le_floor_iff)
  then show ?thesis by (simp add: round_half_even_def Let_def)
qed


lemma scan_lower: "- 1022 \<le> scan n r"
  by (induction n) auto

lemma scan_upper: "scan n r \<le> int n - 1022"
  by (induction n) auto

lemma scan_pow_le: "scan n r \<noteq> - 1022 \<Longrightarrow> 2 powi (scan n r) \<le> r"
  by (induction n) (auto split: if_splits)

lemma scan_greatest:
  "2 powi e \<le> r \<Longrightarrow> - 1021 \<le> e \<Longrightarrow> e \<le> int n - 1022 \<Longrightarrow> e \<le> scan n r"
proof (induction n)
  case 0
  then show ?case by simp
next
  case (Suc n)
  show ?case
  proof (cases "2 powi (int n - 1021) \<le> r")
    case True
    with Suc.prems show ?thesis by simp
  next
    case False
    have "e \<noteq> int n - 1021" using False Suc.prems(1) by auto
    with Suc.prems have "e \<le> int n - 1022" by simp
    with Suc.IH Suc.prems False show ?thesis by simp
  qed
qed

lemma binade_lower: "- 1022 \<le> binade r"
  by (simp add: binade_def scan_lower)

lemma binade_pow_le: "binade r \<noteq> - 1022 \<Longrightarrow> 2 powi (binade r) \<le> r"
  unfolding binade_def by (rule scan_pow_le)

lemma binade_ge: "2 powi e \<le> r \<Longrightarrow> - 1022 \<le> e \<Longrightarrow> e \<le> 1023 \<Longrightarrow> e \<le> binade r"
proof -
  assume a: "2 powi e \<le> r" "- 1022 \<le> e" "e \<le> 1023"
  show ?thesis
  proof (cases "e = - 1022")
    case True
    then show ?thesis by (simp add: binade_lower)
  next
    case False
    with a have "- 1021 \<le> e" by simp
    with a show ?thesis unfolding binade_def by (intro scan_greatest) auto
  qed
qed

lemma pow2_less_D: "(2::real) powi m < 2 powi n \<Longrightarrow> m < n"
proof (rule ccontr)
  assume lt: "(2::real) powi m < 2 powi n" and "\<not> m < n"
  then have "n \<le> m" by simp
  then have "(2::real) powi n \<le> 2 powi m" by (intro power_int_increasing) auto
  with lt show False by simp
qed

lemma binade_le: "r < 2 powi (e + 1) \<Longrightarrow> - 1022 \<le> e \<Longrightarrow> binade r \<le> e"
proof -
  assume a: "r < 2 powi (e + 1)" "- 1022 \<le> e"
  show ?thesis
  proof (cases "binade r = - 1022")
    case True
    with a show ?thesis by simp
  next
    case False
    then have "(2::real) powi (binade r) \<le> r" by (rule binade_pow_le)
    with a have "(2::real) powi (binade r) < 2 powi (e + 1)" by simp
    then have "binade r < e + 1" by (rule pow2_less_D)
    then show ?thesis by simp
  qed
qed

lemma pow2_pos: "0 < (2::real) powi e"
  by (simp add: power_int_def)

lemma pow2_split: "d \<le> e \<Longrightarrow> (2::real) powi e = 2 ^ nat (e - d) * 2 powi d"
proof -
  assume le: "d \<le> e"
  have "(2::real) powi e = 2 powi ((e - d) + d)" by simp
  also have "\<dots> = 2 powi (e - d) * 2 powi d" by (rule power_int_add) simp
  also have "(2::real) powi (e - d) = 2 ^ nat (e - d)" using le by (simp add: power_int_def)
  finally show ?thesis .
qed

text \<open>Rounding is monotone against a double: a real that is at most the double
  \<open>K * 2 powi (e - 52)\<close> of binade \<open>e\<close> rounds to at most that double, and a real that
  is at least that double rounds to at least it, or overflows.\<close>

lemma round_pos_upper:
  assumes B: "B = of_int K * 2 powi (e0 - 52)" and top: "B < 2 powi (e0 + 1)"
    and e0: "- 1022 \<le> e0" "e0 \<le> 1023" and r: "0 \<le> r" "r \<le> B"
  shows "\<exists>x. round_pos r = Num x \<and> 0 \<le> x \<and> x \<le> B"
proof -
  define E where "E = binade r - 52"
  define v where "v = of_int (round_half_even (r / 2 powi E)) * (2::real) powi E"
  have "r < 2 powi (e0 + 1)" using r top by simp
  then have be: "binade r \<le> e0" using e0(1) by (rule binade_le)
  then have Ele: "E \<le> e0 - 52" by (simp add: E_def)
  have Bq: "B = of_int (K * 2 ^ nat (e0 - 52 - E)) * 2 powi E"
    using pow2_split [OF Ele] B by simp
  have "r / 2 powi E \<le> B / 2 powi E"
    using r pow2_pos [of E] by (simp add: divide_right_mono)
  also have "B / 2 powi E = of_int (K * 2 ^ nat (e0 - 52 - E))"
    using pow2_pos [of E] by (subst Bq) simp
  finally have "round_half_even (r / 2 powi E) \<le> K * 2 ^ nat (e0 - 52 - E)" by (rule round_half_even_le)
  then have "of_int (round_half_even (r / 2 powi E)) \<le> (of_int (K * 2 ^ nat (e0 - 52 - E)) :: real)"
    by (simp only: of_int_le_iff)
  then have "v \<le> of_int (K * 2 ^ nat (e0 - 52 - E)) * 2 powi E"
    unfolding v_def using pow2_pos [of E] by (intro mult_right_mono) auto
  then have vB: "v \<le> B" using Bq by simp
  have "0 \<le> r / 2 powi E" using r pow2_pos [of E] by simp
  then have "0 \<le> round_half_even (r / 2 powi E)" using round_half_even_ge [of 0] by simp
  then have v0: "0 \<le> v" unfolding v_def using pow2_pos [of E] by simp
  have "(2::real) powi (e0 + 1) \<le> 2 powi 1024" using e0 by (intro power_int_increasing) auto
  with top vB have "\<not> 2 powi 1024 \<le> v" by simp
  then have "round_pos r = Num v" by (simp add: round_pos_def Let_def E_def v_def)
  with v0 vB show ?thesis by blast
qed

lemma round_pos_lower:
  assumes D: "D = of_int K * 2 powi (e0 - 52)" and bot: "2 powi e0 \<le> D"
    and top: "D \<le> 2 powi (e0 + 1)"
    and e0: "- 1022 \<le> e0" "e0 \<le> 1023" and r: "D \<le> r"
  shows "round_pos r = PosInf \<or> (\<exists>x. round_pos r = Num x \<and> D \<le> x)"
proof -
  define E where "E = binade r - 52"
  define v where "v = of_int (round_half_even (r / 2 powi E)) * (2::real) powi E"
  have "2 powi e0 \<le> r" using bot r by simp
  then have be: "e0 \<le> binade r" using e0 by (rule binade_ge)
  have "D \<le> v"
  proof (cases "binade r = e0")
    case True
    then have E: "E = e0 - 52" by (simp add: E_def)
    have "of_int K = D / 2 powi E" using D pow2_pos [of E] by (simp add: E)
    also have "\<dots> \<le> r / 2 powi E" using r pow2_pos [of E] by (simp add: divide_right_mono)
    finally have "K \<le> round_half_even (r / 2 powi E)" by (rule round_half_even_ge)
    then have "(of_int K :: real) \<le> of_int (round_half_even (r / 2 powi E))" by (simp only: of_int_le_iff)
    then have "of_int K * 2 powi E \<le> v"
      unfolding v_def using pow2_pos [of E] by (intro mult_right_mono) auto
    then show ?thesis using D E by simp
  next
    case False
    with be have lt: "e0 + 1 \<le> binade r" by simp
    with e0 have "binade r \<noteq> - 1022" by simp
    then have ple: "2 powi (binade r) \<le> r" by (rule binade_pow_le)
    have sp: "(2::real) powi (binade r) = 2 ^ nat 52 * 2 powi E"
      using pow2_split [of E "binade r"] by (simp add: E_def)
    have "(of_int (2 ^ 52) :: real) = 2 powi (binade r) / 2 powi E"
      using pow2_pos [of E] by (simp add: sp)
    also have "\<dots> \<le> r / 2 powi E" using ple pow2_pos [of E] by (simp add: divide_right_mono)
    finally have "2 ^ 52 \<le> round_half_even (r / 2 powi E)" by (rule round_half_even_ge)
    then have "(of_int (2 ^ 52) :: real) \<le> of_int (round_half_even (r / 2 powi E))"
      by (simp only: of_int_le_iff)
    then have "of_int (2 ^ 52) * 2 powi E \<le> v"
      unfolding v_def using pow2_pos [of E] by (intro mult_right_mono) auto
    then have "2 powi (binade r) \<le> v" using sp by simp
    moreover have "(2::real) powi (e0 + 1) \<le> 2 powi (binade r)"
      using lt by (intro power_int_increasing) auto
    ultimately show ?thesis using top by simp
  qed
  then show ?thesis by (auto simp: round_pos_def Let_def E_def v_def)
qed


lemma round_pos_exact:
  assumes "r = of_int K * 2 powi (e0 - 52)" and "2 powi e0 \<le> r" and "r < 2 powi (e0 + 1)"
    and "- 1022 \<le> e0" and "e0 \<le> 1023"
  shows "round_pos r = Num r"
proof -
  have r0: "0 \<le> r" using assms(2) pow2_pos [of e0] by linarith
  from round_pos_upper [OF assms(1,3,4,5) r0 order_refl]
  obtain x where x: "round_pos r = Num x" "x \<le> r" by blast
  from round_pos_lower [OF assms(1,2) _ assms(4,5) order_refl] assms(3) x
  have "r \<le> x" by auto
  with x show ?thesis by simp
qed

lemma round_pos_eval:
  assumes "2 powi e \<le> r" and "r < 2 powi (e + 1)" and "- 1022 \<le> e" and "e \<le> 1023"
  shows "round_pos r =
           (if 2 powi 1024 \<le> of_int (round_half_even (r / 2 powi (e - 52))) * (2::real) powi (e - 52)
            then PosInf else Num (of_int (round_half_even (r / 2 powi (e - 52))) * 2 powi (e - 52)))"
proof -
  have "binade r = e" using binade_le [OF assms(2,3)] binade_ge [OF assms(1,3,4)] by simp
  then show ?thesis by (simp add: round_pos_def Let_def)
qed



lemma to_double_nonneg: "0 \<le> r \<Longrightarrow> to_double r = round_pos r"
  by (simp add: to_double_def)

lemma to_double_exact:
  assumes "r = of_int K * 2 powi (e0 - 52)" and "2 powi e0 \<le> r" and "r < 2 powi (e0 + 1)"
    and "- 1022 \<le> e0" and "e0 \<le> 1023"
  shows "to_double r = Num r"
proof -
  have "0 \<le> r" using assms(2) pow2_pos [of e0] by linarith
  then show ?thesis using round_pos_exact [OF assms] by (simp add: to_double_nonneg)
qed


lemma double_half: "to_double (1 / 2) = Num (1 / 2)"
  using to_double_exact [of "1 / 2" "2 ^ 52" "- 1"] by (simp add: power_int_minus field_simps)




lemma double_50: "to_double 50 = Num 50"
  using to_double_exact [of 50 "50 * 2 ^ 47" 5] by (simp add: power_int_minus field_simps)



lemma to_double_eval:
  assumes "2 powi e \<le> r" and "r < 2 powi (e + 1)" and "- 1022 \<le> e" and "e \<le> 1023"
  shows "to_double r =
           (if 2 powi 1024 \<le> of_int (round_half_even (r / 2 powi (e - 52))) * (2::real) powi (e - 52)
            then PosInf
            else Num (of_int (round_half_even (r / 2 powi (e - 52))) * 2 powi (e - 52)))"
proof -
  have "0 \<le> r" using assms(1) pow2_pos [of e] by linarith
  then show ?thesis using round_pos_eval [OF assms] by (simp add: to_double_nonneg)
qed

subsection \<open>Facts about the leaderboard and the poller\<close>

lemma row_entry_render_row: "row_entry (render_row k res) = res"
  by (simp add: row_entry_def render_row_def)

lemma render_rows_zip: "render_rows rs = map (\<lambda>(k, res). render_row k res) (zip [0..<length rs] rs)"
  by (simp add: render_rows_def enumerate_eq_zip)

lemma length_render_rows: "length (render_rows rs) = length rs"
  by (simp add: render_rows_def)

lemma entries_render_rows: "map row_entry (render_rows rs) = rs"
proof -
  have "map row_entry (render_rows rs) = map snd (zip [0..<length rs] rs)"
    unfolding render_rows_zip by (simp add: row_entry_render_row case_prod_unfold comp_def)
  then show ?thesis by simp
qed

lemma best_render_rows: "map best (render_rows rs) = map (\<lambda>k. k = 0) [0..<length rs]"
proof -
  have "map best (render_rows rs) = map ((\<lambda>k. k = 0) \<circ> fst) (zip [0..<length rs] rs)"
    unfolding render_rows_zip by (simp add: render_row_def case_prod_unfold comp_def)
  also have "\<dots> = map (\<lambda>k. k = 0) (map fst (zip [0..<length rs] rs))"
    by (simp only: map_map)
  also have "map fst (zip [0..<length rs] rs) = [0..<length rs]" by simp
  finally show ?thesis .
qed

lemma mape_render_rows: "map row_mape (render_rows rs) = map (\<lambda>r. mape (metrics r)) rs"
proof -
  have "map row_mape (render_rows rs) = map ((\<lambda>r. mape (metrics r)) \<circ> snd) (zip [0..<length rs] rs)"
    unfolding render_rows_zip by (simp add: render_row_def case_prod_unfold comp_def)
  also have "\<dots> = map (\<lambda>r. mape (metrics r)) (map snd (zip [0..<length rs] rs))"
    by (simp only: map_map)
  also have "map snd (zip [0..<length rs] rs) = rs" by simp
  finally show ?thesis .
qed

lemma poll_inv_mount: "poll_inv t0 (mount tid t0)"
  by (simp add: poll_inv_def mount_def)

lemma length_remove1_le: "length (remove1 x xs) \<le> length xs"
  by (induction xs) auto

lemma poll_inv_step:
  assumes "poll_inv t0 s" and "step e s = Some s'"
  shows "poll_inv t0 s'"
proof (cases e)
  case (Advance d)
  with assms show ?thesis by (auto simp: poll_inv_def split: option.splits)
next
  case Tick
  with assms show ?thesis
    by (auto simp: poll_inv_def split: option.splits if_splits)
next
  case (Resolve i d)
  with assms show ?thesis
    using length_remove1_le [of i "inflight s"]
    by (auto simp: poll_inv_def on_fulfilled_def setResults_def setTaskStatus_def
        clearInterval_def split: if_splits)
next
  case (Reject i)
  with assms show ?thesis
    using length_remove1_le [of i "inflight s"]
    by (auto simp: poll_inv_def on_rejected_def console_error_def clearInterval_def
        split: if_splits)
next
  case Cleanup
  with assms show ?thesis
    by (auto simp: poll_inv_def clearInterval_def split: if_splits)
qed

lemma poll_inv_run:
  "poll_inv t0 s \<Longrightarrow> run es s = Some s' \<Longrightarrow> poll_inv t0 s'"
proof (induction es arbitrary: s)
  case Nil
  then show ?case by simp
next
  case (Cons e es)
  then obtain s1 where s1: "step e s = Some s1" and rest: "run es s1 = Some s'"
    by (auto split: option.splits)
  from Cons.prems(1) s1 have "poll_inv t0 s1" by (rule poll_inv_step)
  then show ?case using rest by (rule Cons.IH)
qed

lemma length_remove1_mem: "x \<in> set xs \<Longrightarrow> Suc (length (remove1 x xs)) = length xs"
  by (induction xs) auto

lemma step_stopped:
  assumes "timer s = None" and "step e s = Some s'"
  shows "e \<noteq> Tick \<and> timer s' = None \<and> issued s' = issued s
         \<and> filter is_get (calls s') = filter is_get (calls s)
         \<and> (if is_settle e then 1 else 0) + length (inflight s') = length (inflight s)"
proof (cases e)
  case (Advance d)
  with assms show ?thesis by auto
next
  case Tick
  with assms show ?thesis by simp
next
  case (Resolve i d)
  with assms show ?thesis
    by (auto simp: on_fulfilled_def setResults_def setTaskStatus_def clearInterval_def
        length_remove1_mem split: if_splits)
next
  case (Reject i)
  with assms show ?thesis
    by (auto simp: on_rejected_def console_error_def clearInterval_def length_remove1_mem
        split: if_splits)
next
  case Cleanup
  with assms show ?thesis by (auto simp: clearInterval_def split: if_splits)
qed

lemma run_stopped:
  "timer s = None \<Longrightarrow> run es s = Some s' \<Longrightarrow>
     Tick \<notin> set es \<and> timer s' = None \<and> issued s' = issued s
     \<and> filter is_get (calls s') = filter is_get (calls s)
     \<and> length (filter is_settle es) + length (inflight s') = length (inflight s)"
proof (induction es arbitrary: s)
  case Nil
  then show ?case by simp
next
  case (Cons e es)
  then obtain s1 where s1: "step e s = Some s1" and rest: "run es s1 = Some s'"
    by (auto split: option.splits)
  note one = step_stopped [OF Cons.prems(1) s1]
  then have "timer s1 = None" by simp
  note more = Cons.IH [OF this rest]
  from one more show ?case by (auto split: if_splits)
qed

lemma step_idle:
  assumes "timer s = None" and "inflight s = []" and "step e s = Some s'"
  shows "timer s' = None \<and> inflight s' = [] \<and> results s' = results s \<and> taskStatus s' = taskStatus s"
  using assms by (cases e) (auto simp: clearInterval_def split: if_splits)

lemma run_idle:
  "timer s = None \<Longrightarrow> inflight s = [] \<Longrightarrow> run es s = Some s' \<Longrightarrow>
     results s' = results s \<and> taskStatus s' = taskStatus s"
proof (induction es arbitrary: s)
  case Nil
  then show ?case by simp
next
  case (Cons e es)
  then obtain s1 where s1: "step e s = Some s1" and rest: "run es s1 = Some s'"
    by (auto split: option.splits)
  note one = step_idle [OF Cons.prems(1,2) s1]
  with Cons.IH [of s1] rest show ?case by simp
qed

lemma step_no_resolve:
  "step e s = Some s' \<Longrightarrow> \<not> is_resolve e \<Longrightarrow> taskStatus s' = taskStatus s \<and> results s' = results s"
  by (cases e) (auto simp: on_rejected_def console_error_def clearInterval_def split: if_splits option.splits)

lemma run_no_resolve:
  "run es s = Some s' \<Longrightarrow> filter is_resolve es = [] \<Longrightarrow>
     taskStatus s' = taskStatus s \<and> results s' = results s"
proof (induction es arbitrary: s)
  case Nil
  then show ?case by simp
next
  case (Cons e es)
  then obtain s1 where s1: "step e s = Some s1" and rest: "run es s1 = Some s'"
    by (auto split: option.splits)
  from Cons.prems(2) have ne: "\<not> is_resolve e" and nes: "filter is_resolve es = []"
    by (auto split: if_splits)
  from step_no_resolve [OF s1 ne] Cons.IH [OF rest nes] show ?case by simp
qed


subsection \<open>The leaderboard\<close>

text \<open>
  What the page shows for a \<open>SUCCESS\<close> payload. When a response with status
  \<open>SUCCESS\<close> carrying the sequence \<open>rs\<close> is handled on the mounted page, the page shows
  the leaderboard of \<open>rs\<close>: one row per element, the same elements in the order
  received (hence the same length and the same multiset), sorted by \<open>mape\<close> exactly when
  \<open>rs\<close> is, and with the first row, and no other, flagged best. The component has no
  sorting step of its own.
\<close>

lemma leaderboard_in_received_order:
  assumes "status d = ''SUCCESS''" and "data_results d = Some rs"
    and "mounted s" and "i \<in> set (inflight s)"
  shows "map_option page_view (step (Resolve i d) s) = Some (LeaderboardView (render_rows rs))
         \<and> length (render_rows rs) = length rs
         \<and> map row_entry (render_rows rs) = rs
         \<and> mset (map row_entry (render_rows rs)) = mset rs
         \<and> (sorted (map row_mape (render_rows rs)) \<longleftrightarrow> sorted (map (\<lambda>r. mape (metrics r)) rs))
         \<and> map best (render_rows rs) = map (\<lambda>k. k = 0) [0..<length rs]"
proof -
  have "map_option page_view (step (Resolve i d) s) = Some (LeaderboardView (render_rows rs))"
    using assms
    by (simp add: on_fulfilled_def setResults_def clearInterval_def page_view_def render_def)
  then show ?thesis
    by (simp add: length_render_rows entries_render_rows mape_render_rows best_render_rows)
qed

text \<open>A payload that arrives ordered by \<open>mape\<close> is shown ordered.\<close>

lemma leaderboard_in_received_order_example:
  "map_option page_view
     (step (Resolve 0 \<lparr>status = ''SUCCESS'', meta = None,
                      data_results = Some [\<lparr>model_name = ''B'', metrics = \<lparr>mape = 5, mae = 2\<rparr>\<rparr>,
                                           \<lparr>model_name = ''A'', metrics = \<lparr>mape = 12, mae = 3\<rparr>\<rparr>]\<rparr>)
        ((mount ''t1'' 0)\<lparr>now := 3000, inflight := [0], issued := 1\<rparr>))
   = Some (LeaderboardView
       [\<lparr>rank = 1, best = True, row_model = ''B'', row_mape = 5, row_mae = 2\<rparr>,
        \<lparr>rank = 2, best = False, row_model = ''A'', row_mape = 12, row_mae = 3\<rparr>])"
  using leaderboard_in_received_order
    [of "\<lparr>status = ''SUCCESS'', meta = None,
          data_results = Some [\<lparr>model_name = ''B'', metrics = \<lparr>mape = 5, mae = 2\<rparr>\<rparr>,
                               \<lparr>model_name = ''A'', metrics = \<lparr>mape = 12, mae = 3\<rparr>\<rparr>]\<rparr>"
        "[\<lparr>model_name = ''B'', metrics = \<lparr>mape = 5, mae = 2\<rparr>\<rparr>,
          \<lparr>model_name = ''A'', metrics = \<lparr>mape = 12, mae = 3\<rparr>\<rparr>]"
        "(mount ''t1'' 0)\<lparr>now := 3000, inflight := [0], issued := 1\<rparr>" 0]
  by (simp add: mount_def render_rows_def render_row_def)

text \<open>
  Claim C1 on the code, at a payload that is not ordered. The claim asks for a ranking
  sorted by \<open>mape\<close>, and the component's own description promises "a leaderboard of
  models ordered by MAPE". The payload \<open>[A (mape 12), B (mape 5)]\<close> of the first poll
  is shown as received: \<open>A\<close> in the first row with the trophy, \<open>B\<close> second, which is not
  sorted by \<open>mape\<close>.
\<close>

theorem leaderboard_not_sorted:
  "map_option (\<lambda>s. map (\<lambda>r. (rank r, best r, row_model r, row_mape r)) (rows_of (page_view s)))
     (run [Advance 3000, Tick,
           Resolve 0 \<lparr>status = ''SUCCESS'', meta = None,
                      data_results = Some [\<lparr>model_name = ''A'', metrics = \<lparr>mape = 12, mae = 3\<rparr>\<rparr>,
                                           \<lparr>model_name = ''B'', metrics = \<lparr>mape = 5, mae = 2\<rparr>\<rparr>]\<rparr>]
        (mount ''t1'' 0))
   = Some [(1, True, ''A'', 12), (2, False, ''B'', 5)]
   \<and> \<not> sorted (map row_mape (render_rows
         [\<lparr>model_name = ''A'', metrics = \<lparr>mape = 12, mae = 3\<rparr>\<rparr>,
          \<lparr>model_name = ''B'', metrics = \<lparr>mape = 5, mae = 2\<rparr>\<rparr>]))"
  by (simp add: poll_defs view_defs)

subsection \<open>Terminal statuses\<close>

text \<open>
  Claim C2 on the code, at a \<open>FAILURE\<close> status: the first poll is answered with
  \<open>FAILURE\<close>; the handler takes the \<open>else\<close> branch and stores the payload with
  \<open>setTaskStatus\<close>, the interval stays active, the page still shows the progress view,
  and three seconds later the next tick issues a second request.
\<close>

theorem failure_keeps_polling:
  "map_option (\<lambda>s. (timer s, inflight s, issued s, calls s, page_view s))
     (run [Advance 3000, Tick,
           Resolve 0 \<lparr>status = ''FAILURE'', meta = None, data_results = None\<rparr>,
           Advance 3000, Tick]
        (mount ''t1'' 0))
   = Some (Some 9000, [1], 2,
           [AxiosGet (results_url ''t1''),
            SetTaskStatus \<lparr>status = ''FAILURE'', meta = None, data_results = None\<rparr>,
            AxiosGet (results_url ''t1'')],
           ProgressView None (Num 0))"
  by (simp add: poll_defs view_defs)

subsection \<open>Requests in flight\<close>

text \<open>
  Claim C9, as the code has it. In every state the poller reaches, a tick that fires
  issues exactly one request whether or not earlier ones are pending; the number of
  requests in flight is at most the number issued, and \<open>k\<close> requests have been issued
  no earlier than \<open>k\<close> periods of 3000 ms after the start.
\<close>

theorem ticks_bounded_by_time:
  assumes "run es (mount tid t0) = Some s"
  shows "length (inflight s) \<le> issued s
         \<and> t0 + issued s * interval \<le> now s
         \<and> (step Tick s \<noteq> None \<longrightarrow>
              map_option inflight (step Tick s) = Some (inflight s @ [issued s])
              \<and> map_option issued (step Tick s) = Some (issued s + 1))"
proof -
  have "poll_inv t0 s" using poll_inv_mount assms by (rule poll_inv_run)
  then have "length (inflight s) \<le> issued s" and "t0 + issued s * interval \<le> now s"
    by (simp_all add: poll_inv_def)
  moreover have "step Tick s \<noteq> None \<longrightarrow>
              map_option inflight (step Tick s) = Some (inflight s @ [issued s])
              \<and> map_option issued (step Tick s) = Some (issued s + 1)"
    by (auto split: option.splits)
  ultimately show ?thesis by blast
qed

text \<open>The theorem on a run with two ticks and one answer, at the moment the third
  tick is due.\<close>

theorem ticks_bounded_by_time_witness:
  "map_option (\<lambda>s. (inflight s, issued s, now s))
     (run [Advance 3000, Tick, Advance 3500, Tick, Resolve 0 initial_status, Advance 3000]
        (mount ''t1'' 0))
   = Some ([1], 2, 9500)
   \<and> map_option (\<lambda>s. (inflight s, issued s))
       (run [Advance 3000, Tick, Advance 3500, Tick, Resolve 0 initial_status, Advance 3000, Tick]
          (mount ''t1'' 0))
     = Some ([1, 2], 3)"
  using ticks_bounded_by_time
    [of "[Advance 3000, Tick, Advance 3500, Tick, Resolve 0 initial_status, Advance 3000]"
        "''t1''" 0
        "the (run [Advance 3000, Tick, Advance 3500, Tick, Resolve 0 initial_status, Advance 3000]
               (mount ''t1'' 0))"]
  by (simp add: poll_defs)

text \<open>Claim C9 as stated fails: when the first request is still pending after three
  seconds, the second tick issues another one and two are in flight.\<close>

theorem overlapping_fetches:
  "map_option inflight (run [Advance 3000, Tick, Advance 3000, Tick] (mount ''t1'' 0))
     = Some [0, 1]"
  by (simp add: poll_defs)

subsection \<open>After the interval is cleared\<close>

text \<open>
  Claim C3, as the code has it. Once the interval is cleared (by the cleanup on
  teardown, or by the handlers themselves), no tick fires and no further request is
  issued; only the requests in flight when it was cleared can still be settled, each
  once; and when one of them is, its handler runs as ever: a response goes to
  \<open>setResults\<close> or \<open>setTaskStatus\<close>, a failure to \<open>console.error\<close>.
\<close>

theorem no_fetch_after_stop:
  assumes "timer s = None" and "run es s = Some s'"
  shows "Tick \<notin> set es \<and> timer s' = None \<and> issued s' = issued s
         \<and> filter is_get (calls s') = filter is_get (calls s)
         \<and> length (filter is_settle es) + length (inflight s') = length (inflight s)
         \<and> (\<forall>i \<in> set (inflight s'). \<forall>d.
               map_option calls (step (Resolve i d) s')
                 = Some (calls s' @ (if status d = ''SUCCESS''
                                     then [SetResults (data_results d), ClearInterval]
                                     else [SetTaskStatus d]))
               \<and> map_option calls (step (Reject i) s')
                 = Some (calls s' @ [ConsoleError, ClearInterval]))"
proof -
  have handlers: "\<forall>i \<in> set (inflight s'). \<forall>d.
               map_option calls (step (Resolve i d) s')
                 = Some (calls s' @ (if status d = ''SUCCESS''
                                     then [SetResults (data_results d), ClearInterval]
                                     else [SetTaskStatus d]))
               \<and> map_option calls (step (Reject i) s')
                 = Some (calls s' @ [ConsoleError, ClearInterval])"
    by (simp add: on_fulfilled_def on_rejected_def setResults_def setTaskStatus_def
        clearInterval_def console_error_def)
  from run_stopped [OF assms] handlers show ?thesis by blast
qed

text \<open>The theorem on a page torn down while its first two requests are pending: the
  first is answered after the teardown, the second fails after it.\<close>

theorem no_fetch_after_stop_witness:
  "map_option timer
     (run [Advance 3000, Tick, Advance 3000, Tick, Cleanup] (mount ''t1'' 0)) = Some None
   \<and> map_option (\<lambda>s. (timer s, issued s, inflight s, filter is_get (calls s)))
       (run [Advance 3000, Tick, Advance 3000, Tick, Cleanup, Advance 500,
             Resolve 0 \<lparr>status = ''RUNNING'', meta = None, data_results = None\<rparr>]
          (mount ''t1'' 0))
     = Some (None, 2, [1], [AxiosGet (results_url ''t1''), AxiosGet (results_url ''t1'')])
   \<and> map_option calls
       (run [Advance 3000, Tick, Advance 3000, Tick, Cleanup, Advance 500,
             Resolve 0 \<lparr>status = ''RUNNING'', meta = None, data_results = None\<rparr>, Reject 1]
          (mount ''t1'' 0))
     = Some [AxiosGet (results_url ''t1''), AxiosGet (results_url ''t1''), ClearInterval,
             SetTaskStatus \<lparr>status = ''RUNNING'', meta = None, data_results = None\<rparr>,
             ConsoleError, ClearInterval]"
  using no_fetch_after_stop
    [of "the (run [Advance 3000, Tick, Advance 3000, Tick, Cleanup] (mount ''t1'' 0))"
        "[Advance 500, Resolve 0 \<lparr>status = ''RUNNING'', meta = None, data_results = None\<rparr>]"
        "the (run [Advance 3000, Tick, Advance 3000, Tick, Cleanup, Advance 500,
                   Resolve 0 \<lparr>status = ''RUNNING'', meta = None, data_results = None\<rparr>]
               (mount ''t1'' 0))"]
  by (simp add: poll_defs)

text \<open>Claim C3 as stated fails. Torn down with a request in flight, the page's handler
  still calls \<open>setTaskStatus\<close> when the answer comes. And on the mounted page, after the
  \<open>catch\<close> of one request has cleared the interval, the answer to another request in
  flight replaces the snapshot.\<close>

theorem handler_runs_after_stop:
  "map_option calls
     (run [Advance 3000, Tick, Cleanup, Advance 500,
           Resolve 0 \<lparr>status = ''RUNNING'', meta = None, data_results = None\<rparr>]
        (mount ''t1'' 0))
   = Some [AxiosGet (results_url ''t1''), ClearInterval,
           SetTaskStatus \<lparr>status = ''RUNNING'', meta = None, data_results = None\<rparr>]
   \<and> map_option (\<lambda>s. (timer s, taskStatus s))
       (run [Advance 3000, Tick, Advance 3000, Tick, Reject 0] (mount ''t1'' 0))
     = Some (None, initial_status)
   \<and> map_option (\<lambda>s. (timer s, taskStatus s))
       (run [Advance 3000, Tick, Advance 3000, Tick, Reject 0,
             Resolve 1 \<lparr>status = ''RUNNING'', meta = None, data_results = None\<rparr>]
          (mount ''t1'' 0))
     = Some (None, \<lparr>status = ''RUNNING'', meta = None, data_results = None\<rparr>)"
  by (simp add: poll_defs)

subsection \<open>A failed status query\<close>

text \<open>
  Claim C4, as the code has it. When a status query fails, the handler logs to the
  console and clears the interval, and changes neither state variable; from then on no
  tick fires and no request is issued (no retry); and when no other request was in
  flight at the failure, the results and the snapshot never change again.
\<close>

theorem query_failure_stops_polling:
  assumes "step (Reject i) s = Some s1" and "run es s1 = Some s'"
  shows "calls s1 = calls s @ [ConsoleError, ClearInterval]
         \<and> taskStatus s1 = taskStatus s \<and> results s1 = results s
         \<and> Tick \<notin> set es \<and> timer s' = None \<and> issued s' = issued s
         \<and> (inflight s1 = [] \<longrightarrow> results s' = results s \<and> taskStatus s' = taskStatus s)"
proof -
  from assms(1) have s1: "s1 = on_rejected (s\<lparr>inflight := remove1 i (inflight s)\<rparr>)"
    by (simp split: if_splits)
  then have a: "calls s1 = calls s @ [ConsoleError, ClearInterval]"
    and b: "taskStatus s1 = taskStatus s" and c: "results s1 = results s"
    and d: "timer s1 = None" and e: "issued s1 = issued s"
    by (simp_all add: on_rejected_def console_error_def clearInterval_def)
  note after = run_stopped [OF d assms(2)]
  have "inflight s1 = [] \<longrightarrow> results s' = results s \<and> taskStatus s' = taskStatus s"
    using run_idle [OF d _ assms(2)] b c by simp
  with a b c e after show ?thesis by simp
qed

text \<open>The theorem on a second poll that fails with nothing else in flight.\<close>

theorem query_failure_stops_polling_witness:
  "map_option (\<lambda>s. (inflight s, calls s))
     (run [Advance 3000, Tick, Resolve 0 initial_status, Advance 3000, Tick, Reject 1]
        (mount ''t1'' 0))
   = Some ([], [AxiosGet (results_url ''t1''), SetTaskStatus initial_status,
                AxiosGet (results_url ''t1''), ConsoleError, ClearInterval])
   \<and> map_option (\<lambda>s. (timer s, issued s, results s))
       (run [Advance 3000, Tick, Resolve 0 initial_status, Advance 3000, Tick, Reject 1,
             Advance 60000, Cleanup] (mount ''t1'' 0))
     = Some (None, 2, None)"
  using query_failure_stops_polling
    [of 1 "the (run [Advance 3000, Tick, Resolve 0 initial_status, Advance 3000, Tick]
                  (mount ''t1'' 0))"
        "the (run [Advance 3000, Tick, Resolve 0 initial_status, Advance 3000, Tick, Reject 1]
                  (mount ''t1'' 0))"
        "[Advance 60000, Cleanup]"
        "the (run [Advance 3000, Tick, Resolve 0 initial_status, Advance 3000, Tick, Reject 1,
             Advance 60000, Cleanup] (mount ''t1'' 0))"]
  by (simp add: poll_defs)

text \<open>Claim C4 as stated fails: the first request fails while a second one is in
  flight; the second is then answered with \<open>SUCCESS\<close> and the page shows the
  leaderboard.\<close>

theorem success_after_query_failure:
  "map_option (\<lambda>s. (timer s, results s, calls s))
     (run [Advance 3000, Tick, Advance 3000, Tick, Reject 0] (mount ''t1'' 0))
   = Some (None, None,
           [AxiosGet (results_url ''t1''), AxiosGet (results_url ''t1''),
            ConsoleError, ClearInterval])
   \<and> map_option (\<lambda>s. (results s, page_view s))
       (run [Advance 3000, Tick, Advance 3000, Tick, Reject 0,
             Resolve 1 \<lparr>status = ''SUCCESS'', meta = None,
                        data_results = Some [\<lparr>model_name = ''A'', metrics = \<lparr>mape = 12, mae = 3\<rparr>\<rparr>]\<rparr>]
          (mount ''t1'' 0))
     = Some (Some [\<lparr>model_name = ''A'', metrics = \<lparr>mape = 12, mae = 3\<rparr>\<rparr>],
             LeaderboardView [\<lparr>rank = 1, best = True, row_model = ''A'', row_mape = 12, row_mae = 3\<rparr>])"
  by (simp add: poll_defs view_defs)

subsection \<open>The start of polling\<close>

text \<open>
  Claim C10, as the code has it. In every state reached from the mount at time \<open>t0\<close>:
  when a request has been issued, and whenever a tick can fire, at least 3000 ms have
  passed since \<open>t0\<close>; and as long as no request at all has been answered, the snapshot
  is \<open>{ status: 'PENDING', meta: {} }\<close>, there are no results, and the page shows the
  progress view with no model line and a bar at 0.
\<close>

theorem first_fetch_after_interval:
  assumes "run es (mount tid t0) = Some s"
  shows "(0 < issued s \<longrightarrow> t0 + 3000 \<le> now s)
         \<and> (step Tick s \<noteq> None \<longrightarrow> t0 + 3000 \<le> now s)
         \<and> (filter is_resolve es = [] \<longrightarrow>
              taskStatus s = \<lparr>status = ''PENDING'',
                               meta = Some \<lparr>model = None, current = None, total' = None\<rparr>,
                               data_results = None\<rparr>
              \<and> results s = None
              \<and> page_view s = ProgressView None (Num 0))"
proof -
  have inv: "poll_inv t0 s" using poll_inv_mount assms by (rule poll_inv_run)
  have first: "0 < issued s \<longrightarrow> t0 + 3000 \<le> now s"
  proof
    assume "0 < issued s"
    then have "interval \<le> issued s * interval" by simp
    with inv show "t0 + 3000 \<le> now s" by (simp add: poll_inv_def interval_def)
  qed
  have tick: "step Tick s \<noteq> None \<longrightarrow> t0 + 3000 \<le> now s"
  proof
    assume en: "step Tick s \<noteq> None"
    then obtain due where due: "timer s = Some due" and le: "due \<le> now s"
      by (auto split: option.splits if_splits)
    from inv due have "due = t0 + (issued s + 1) * interval" by (simp add: poll_inv_def)
    with le show "t0 + 3000 \<le> now s" by (simp add: interval_def)
  qed
  have snap: "filter is_resolve es = [] \<longrightarrow>
              taskStatus s = \<lparr>status = ''PENDING'',
                               meta = Some \<lparr>model = None, current = None, total' = None\<rparr>,
                               data_results = None\<rparr>
              \<and> results s = None
              \<and> page_view s = ProgressView None (Num 0)"
  proof
    assume "filter is_resolve es = []"
    with assms have "taskStatus s = taskStatus (mount tid t0) \<and> results s = results (mount tid t0)"
      by (rule run_no_resolve)
    then show "taskStatus s = \<lparr>status = ''PENDING'',
                               meta = Some \<lparr>model = None, current = None, total' = None\<rparr>,
                               data_results = None\<rparr>
              \<and> results s = None
              \<and> page_view s = ProgressView None (Num 0)"
      by (simp add: mount_def initial_status_def view_defs)
  qed
  from first tick snap show ?thesis by blast
qed

text \<open>The theorem six seconds after the start, with the first request pending and the
  second tick due.\<close>

theorem first_fetch_after_interval_witness:
  "map_option (\<lambda>s. (issued s, now s, taskStatus s, results s, page_view s))
     (run [Advance 3000, Tick, Advance 3000] (mount ''t1'' 0))
   = Some (1, 6000, initial_status, None, ProgressView None (Num 0))
   \<and> map_option issued (run [Advance 3000, Tick, Advance 3000, Tick] (mount ''t1'' 0)) = Some 2"
  using first_fetch_after_interval
    [of "[Advance 3000, Tick, Advance 3000]" "''t1''" 0
        "the (run [Advance 3000, Tick, Advance 3000] (mount ''t1'' 0))"]
  by (simp add: poll_defs view_defs)

text \<open>Claim C10 as stated fails: the second request is answered while the first is
  still pending; the snapshot is replaced and the bar moves to 50 percent before the
  first fetch has resolved.\<close>

theorem later_answer_replaces_snapshot:
  "map_option (\<lambda>s. (inflight s, taskStatus s, page_view s))
     (run [Advance 3000, Tick, Advance 3000, Tick,
           Resolve 1 \<lparr>status = ''RUNNING'',
                      meta = Some \<lparr>model = Some ''ETS'', current = Some 2, total' = Some 4\<rparr>,
                      data_results = None\<rparr>]
        (mount ''t1'' 0))
   = Some ([0],
           \<lparr>status = ''RUNNING'',
            meta = Some \<lparr>model = Some ''ETS'', current = Some 2, total' = Some 4\<rparr>,
            data_results = None\<rparr>,
           ProgressView (Some (''ETS'', Some 2, Some 4)) (Num 50))"
  by (simp add: poll_defs view_defs double_half double_50)

text \<open>A tick one millisecond early cannot happen.\<close>

lemma early_tick_impossible: "run [Advance 2999, Tick] (mount ''t1'' 0) = None"
  by (simp add: poll_defs)


subsection \<open>The progress bar\<close>

text \<open>Two quotients that are not doubles, a third and seven twenty-fifths, are rounded,
  and the products that follow are rounded again; a product beyond the largest double
  is \<open>Infinity\<close>.\<close>

lemma progress_one_of_three:
  "progress (Some \<lparr>model = None, current = Some 1, total' = Some 3\<rparr>)
     = Num (2345624805922133 / 70368744177664)"
proof -
  have q: "to_double (1 / 3) = Num (6004799503160661 / 2 ^ 54)"
    using to_double_eval [of "- 2" "1 / 3"]
    by (simp add: round_half_even_def Let_def power_int_minus field_simps)
  have p: "to_double (6004799503160661 / 2 ^ 54 * 100) = Num (2345624805922133 / 70368744177664)"
    using to_double_eval [of 5 "6004799503160661 / 2 ^ 54 * 100"]
    by (simp add: round_half_even_def Let_def power_int_minus field_simps)
  show ?thesis using q p by (simp add: progress_def)
qed

lemma progress_seven_of_twenty_five:
  "progress (Some \<lparr>model = None, current = Some 7, total' = Some 25\<rparr>)
     = Num (7881299347898369 / 281474976710656)"
proof -
  have q: "to_double (7 / 25) = Num (5044031582654956 / 2 ^ 54)"
    using to_double_eval [of "- 2" "7 / 25"]
    by (simp add: round_half_even_def Let_def power_int_minus field_simps)
  have p: "to_double (5044031582654956 / 2 ^ 54 * 100) = Num (7881299347898369 / 281474976710656)"
    using to_double_eval [of 4 "5044031582654956 / 2 ^ 54 * 100"]
    by (simp add: round_half_even_def Let_def power_int_minus field_simps)
  show ?thesis using q p by (simp add: progress_def)
qed

lemma round_pos_overflow: "2 powi 1024 \<le> r \<Longrightarrow> round_pos r = PosInf"
proof -
  assume big: "2 powi 1024 \<le> r"
  have "round_pos r = PosInf \<or> (\<exists>x. round_pos r = Num x \<and> 2 powi 1024 \<le> x)"
    using round_pos_lower [of "2 powi 1024" "2 ^ 53" 1023 r] big pow2_split [of 971 1024]
    by simp
  moreover have "\<And>x. round_pos r = Num x \<Longrightarrow> \<not> 2 powi 1024 \<le> x"
    by (auto simp: round_pos_def Let_def split: if_splits)
  ultimately show ?thesis by blast
qed

lemma progress_overflow:
  "progress (Some \<lparr>model = None, current = Some (2 ^ 1023), total' = Some 1\<rparr>) = PosInf"
proof -
  have q: "to_double (2 ^ 1023) = Num (2 ^ 1023)"
    using to_double_exact [of "2 ^ 1023" "2 ^ 52" 1023] pow2_split [of 971 1023]
    by simp
  have "(2::real) powi 1024 \<le> 2 ^ 1023 * 100" by simp
  then have p: "to_double (2 ^ 1023 * 100) = PosInf"
    by (simp add: to_double_nonneg round_pos_overflow)
  show ?thesis using q p by (simp add: progress_def)
qed






text \<open>
  Claim C6: when the total is 0, \<open>progress\<close> is exactly 0. The guard \<open>meta?.total ?\<close>
  takes the branch without the division, so the result is the number 0 and none of the
  values a division by zero gives in JavaScript (\<open>Infinity\<close>, \<open>-Infinity\<close>, \<open>NaN\<close>).
\<close>

theorem progress_zero_total:
  "total' mt = Some 0 \<Longrightarrow> progress (Some mt) = Num 0"
  by (simp add: progress_def)

theorem progress_zero_total_witness:
  "progress (Some \<lparr>model = Some ''ETS'', current = Some 0, total' = Some 0\<rparr>) = Num 0"
  using progress_zero_total [of "\<lparr>model = Some ''ETS'', current = Some 0, total' = Some 0\<rparr>"]
  by simp

subsection \<open>Submission\<close>

text \<open>
  Claim C7: \<open>handleSubmit\<close> with no file selected sets the message asking for a file,
  which the form then shows, and returns at once: whatever the network would answer, the
  only effect is \<open>preventDefault\<close>, and no request is made.
\<close>

theorem submit_without_file:
  assumes "file' s = None"
  shows "handleSubmit out s = (s\<lparr>error := msg_no_file\<rparr>, [PreventDefault])
         \<and> error_shown (fst (handleSubmit out s)) = Some msg_no_file
         \<and> filter is_post (snd (handleSubmit out s)) = []"
  using assms by (simp add: handleSubmit_def error_shown_def msg_no_file_def)

theorem submit_without_file_witness:
  "file' home_init = None
   \<and> handleSubmit (Fulfilled (Some ''42'')) home_init
     = (home_init\<lparr>error := msg_no_file\<rparr>, [PreventDefault])
   \<and> error_shown (fst (handleSubmit (Fulfilled (Some ''42'')) home_init)) = Some msg_no_file
   \<and> filter is_post (snd (handleSubmit (Fulfilled (Some ''42'')) home_init)) = []"
proof -
  have h: "file' home_init = None" by (simp add: home_init_def)
  from h submit_without_file [OF h, of "Fulfilled (Some ''42'')"] show ?thesis by blast
qed

text \<open>
  Claim C8, as the code has it: when the request of a submission throws, the message
  shown is the \<open>detail\<close> of the error's response body when that field is present and not
  the empty string, and the fallback message when it is absent or empty; one request was
  made and there is no navigation.
\<close>

theorem submit_failure_message:
  assumes "file' s = Some f"
  shows "(error_detail err = Some d \<and> d \<noteq> [] \<longrightarrow>
            error (fst (handleSubmit (Thrown err) s)) = d)
         \<and> (error_detail err = None \<or> error_detail err = Some [] \<longrightarrow>
            error (fst (handleSubmit (Thrown err) s)) = msg_upload_failed)
         \<and> error_shown (fst (handleSubmit (Thrown err) s))
             = Some (error (fst (handleSubmit (Thrown err) s)))
         \<and> snd (handleSubmit (Thrown err) s) = [PreventDefault, AxiosPost process_url f]"
  using assms
  by (auto simp: handleSubmit_def or_else_def error_shown_def msg_upload_failed_def
      split: option.splits)

text \<open>The theorem on a 4xx answer with a detail, and on a failure with no response.\<close>

theorem submit_failure_message_witness:
  "error (fst (handleSubmit (Thrown \<lparr>response = Some \<lparr>data = Some \<lparr>detail = Some ''Invalid CSV''\<rparr>\<rparr>\<rparr>)
        \<lparr>file' = Some ''demand.csv'', error = [], loading = False\<rparr>)) = ''Invalid CSV''
   \<and> error (fst (handleSubmit (Thrown \<lparr>response = None\<rparr>)
        \<lparr>file' = Some ''demand.csv'', error = [], loading = False\<rparr>)) = msg_upload_failed"
  using submit_failure_message [of "\<lparr>file' = Some ''demand.csv'', error = [], loading = False\<rparr>"
          "''demand.csv''" "\<lparr>response = Some \<lparr>data = Some \<lparr>detail = Some ''Invalid CSV''\<rparr>\<rparr>\<rparr>" "''Invalid CSV''"]
        submit_failure_message [of "\<lparr>file' = Some ''demand.csv'', error = [], loading = False\<rparr>"
          "''demand.csv''" "\<lparr>response = None\<rparr>" "[]"]
  by (simp add: error_detail_def)

text \<open>Claim C8 as stated fails: an error body whose \<open>detail\<close> is present and empty gives
  the fallback message, not the detail.\<close>

theorem empty_detail_gives_fallback:
  "error_detail \<lparr>response = Some \<lparr>data = Some \<lparr>detail = Some []\<rparr>\<rparr>\<rparr> = Some []
   \<and> error (fst (handleSubmit (Thrown \<lparr>response = Some \<lparr>data = Some \<lparr>detail = Some []\<rparr>\<rparr>\<rparr>)
        (handleFileChange [''demand.csv''] home_init))) = msg_upload_failed
   \<and> msg_upload_failed \<noteq> []"
  by (simp add: error_detail_def handleSubmit_def handleFileChange_def home_init_def or_else_def
      msg_upload_failed_def)

end
